theory Spec2Isabelle
  imports Complex_Main "HOL-Library.Multiset"
begin

section \<open>The dashboard's data model (plots/code.js)\<close>

text \<open>
  A JavaScript number, an IEEE 754 double: \<open>Fin x\<close> is the finite double of value \<open>x\<close>
  (\<open>Fin 0\<close> is +0), \<open>NegZero\<close> is -0, and the three non-finite values are kept apart.
  Which reals are doubles is not modelled: the arithmetic below takes the rounding of
  a result as a parameter.
\<close>

datatype jsnum = Fin real | NegZero | PosInf | NegInf | NaN

datatype js_error = TypeError

text \<open>A scalar of the config object: a JSON number or a JSON string.\<close>

datatype scalar = Number jsnum | String string

type_synonym config_t = "(string \<times> scalar) list"

text \<open>An entry of \<open>evaluation_results\<close>: \<open>{step, paloma}\<close>.\<close>

record evaluation_result =
  step :: int
  paloma :: jsnum

text \<open>An entry of \<open>training_metrics\<close>: \<open>{step, loss, learning_rate, inf_nan_count}\<close>.\<close>

record training_metric =
  step :: int
  loss :: jsnum
  learning_rate :: jsnum
  inf_nan_count :: int

text \<open>
  A run object of \<open>data.json\<close>. A property that may be absent (\<open>undefined\<close>) is an
  option: the code tests \<open>run.training_metrics\<close>, \<open>run.evaluation_results\<close>,
  \<open>run.config\<close> and \<open>run.log_files\<close> for truthiness, and an array or object, also an
  empty one, is truthy.
\<close>

record run =
  run_name :: string
  log_file :: "string option"
  log_files :: "string option list option"
  training_metrics :: "training_metric list option"
  evaluation_results :: "evaluation_result list option"
  config :: "config_t option"

section \<open>mergeContinuationLogs\<close>

subsection \<open>Grouping by run name\<close>

text \<open>
  \<open>runGroups\<close> is a plain object literal, so a lookup \<open>runGroups[baseName]\<close> also finds
  the properties inherited from \<open>Object.prototype\<close>. All of them are truthy, none has a
  \<open>push\<close> method: for such a name the guard \<open>!runGroups[baseName]\<close> is false and the call
  \<open>runGroups[baseName].push(run)\<close> throws a TypeError.
\<close>

definition objectPrototypeKeys :: "string list" where
  "objectPrototypeKeys =
     [''constructor'', ''__defineGetter__'', ''__defineSetter__'', ''hasOwnProperty'',
      ''__lookupGetter__'', ''__lookupSetter__'', ''isPrototypeOf'',
      ''propertyIsEnumerable'', ''toString'', ''valueOf'', ''__proto__'',
      ''toLocaleString'']"

type_synonym groups = "(string \<times> run list) list"

text \<open>
  The own properties of \<open>runGroups\<close> in creation order. One step of the first
  \<open>forEach\<close>: create the group if there is none, then push the run.
\<close>

fun pushRun :: "run \<Rightarrow> groups \<Rightarrow> groups" where
  "pushRun r [] = [(run_name r, [r])]"
| "pushRun r ((k, rs) # gs) =
     (if k = run_name r then (k, rs @ [r]) # gs else (k, rs) # pushRun r gs)"

fun groupRuns :: "groups \<Rightarrow> run list \<Rightarrow> js_error + groups" where
  "groupRuns gs [] = Inr gs"
| "groupRuns gs (r # rs) =
     (if List.member objectPrototypeKeys (run_name r) then Inl TypeError
      else groupRuns (pushRun r gs) rs)"

subsection \<open>The order of Object.entries\<close>

text \<open>
  \<open>Object.entries\<close> lists the keys that are array indices first, in ascending numeric
  order, then the other string keys in creation order. An array index is the canonical
  decimal form of an integer from 0 to 2^32 - 2.
\<close>

definition isDigit :: "char \<Rightarrow> bool" where
  "isDigit c = ((48::nat) \<le> of_char c \<and> of_char c \<le> (57::nat))"

definition digitsValue :: "string \<Rightarrow> nat" where
  "digitsValue s = foldl (\<lambda>a c. 10 * a + (of_char c - 48)) 0 s"

definition isArrayIndex :: "string \<Rightarrow> bool" where
  "isArrayIndex s =
     (s \<noteq> [] \<and> list_all isDigit s \<and> (length s = 1 \<or> hd s \<noteq> CHR ''0'')
      \<and> digitsValue s < 4294967295)"

definition objectEntries :: "(string \<times> 'a) list \<Rightarrow> (string \<times> 'a) list" where
  "objectEntries gs =
     sort_key (\<lambda>e. digitsValue (fst e)) (filter (\<lambda>e. isArrayIndex (fst e)) gs)
     @ filter (\<lambda>e. \<not> isArrayIndex (fst e)) gs"

subsection \<open>Merging one group\<close>

text \<open>
  \<open>xs.filter((m, index, self) => index === 0 || m.step !== self[index - 1].step)\<close>,
  for either kind of sample: \<open>stp\<close> reads the step.
\<close>

definition removeDuplicateSteps :: "('a \<Rightarrow> int) \<Rightarrow> 'a list \<Rightarrow> 'a list" where
  "removeDuplicateSteps stp self =
     map snd (filter (\<lambda>(index, metric). index = 0 \<or> stp metric \<noteq> stp (self ! (index - 1)))
                     (enumerate 0 self))"

text \<open>
  \<open>runs.forEach(run => { if (run.training_metrics) merged.push(...run.training_metrics) })\<close>:
  a run without the property contributes nothing.
\<close>

definition samplesOf :: "(run \<Rightarrow> 'a list option) \<Rightarrow> run \<Rightarrow> 'a list" where
  "samplesOf field r = (case field r of None \<Rightarrow> [] | Some xs \<Rightarrow> xs)"

definition pushAll :: "(run \<Rightarrow> 'a list option) \<Rightarrow> run list \<Rightarrow> 'a list" where
  "pushAll field runs = concat (map (samplesOf field) runs)"

text \<open>
  \<open>Array.prototype.sort\<close> with the comparator \<open>a.step - b.step\<close> is a stable sort by step
  (ECMAScript 2019 and later); \<open>sort_key\<close> is a stable insertion sort.
\<close>

definition mergedRun :: "string \<Rightarrow> run \<Rightarrow> run list \<Rightarrow> run" where
  "mergedRun baseName r0 runs =
     \<lparr> run_name = baseName,
       log_file = None,
       log_files = Some (map log_file runs),
       training_metrics =
         Some (removeDuplicateSteps training_metric.step
                 (sort_key training_metric.step (pushAll training_metrics runs))),
       evaluation_results =
         Some (removeDuplicateSteps evaluation_result.step
                 (sort_key evaluation_result.step (pushAll evaluation_results runs))),
       config = Some (case config r0 of None \<Rightarrow> [] | Some c \<Rightarrow> c) \<rparr>"

text \<open>
  The body of the second \<open>forEach\<close>. A group is never empty; on an empty one
  \<open>runs[0].config\<close> would throw.
\<close>

fun mergeGroup :: "string \<Rightarrow> run list \<Rightarrow> js_error + run" where
  "mergeGroup baseName [] = Inl TypeError"
| "mergeGroup baseName [r] = Inr r"
| "mergeGroup baseName (r0 # r1 # rs) = Inr (mergedRun baseName r0 (r0 # r1 # rs))"

fun mergeEntries :: "groups \<Rightarrow> js_error + run list" where
  "mergeEntries [] = Inr []"
| "mergeEntries ((baseName, runs) # es) =
     (case mergeGroup baseName runs of
        Inl e \<Rightarrow> Inl e
      | Inr m \<Rightarrow> (case mergeEntries es of Inl e \<Rightarrow> Inl e | Inr ms \<Rightarrow> Inr (m # ms)))"

text \<open>The new value of \<open>trainingData.runs\<close>, or the error thrown.\<close>

definition mergeContinuationLogs :: "run list \<Rightarrow> js_error + run list" where
  "mergeContinuationLogs runs =
     (case groupRuns [] runs of
        Inl e \<Rightarrow> Inl e
      | Inr gs \<Rightarrow> mergeEntries (objectEntries gs))"

section \<open>The chart series\<close>

subsection \<open>Arithmetic on JavaScript numbers\<close>

text \<open>The sign bit, the zeros, the infinities, and the value of a finite number.\<close>

fun negative :: "jsnum \<Rightarrow> bool" where
  "negative (Fin a) = (a < 0)"
| "negative NegZero = True"
| "negative NegInf = True"
| "negative a = False"

fun isZero :: "jsnum \<Rightarrow> bool" where
  "isZero (Fin a) = (a = 0)"
| "isZero NegZero = True"
| "isZero a = False"

fun isInfinite :: "jsnum \<Rightarrow> bool" where
  "isInfinite PosInf = True"
| "isInfinite NegInf = True"
| "isInfinite a = False"

fun valueOf :: "jsnum \<Rightarrow> real" where
  "valueOf (Fin a) = a"
| "valueOf a = 0"

definition signedZero :: "bool \<Rightarrow> jsnum" where
  "signedZero neg = (if neg then NegZero else Fin 0)"

definition signedInf :: "bool \<Rightarrow> jsnum" where
  "signedInf neg = (if neg then NegInf else PosInf)"

text \<open>
  \<open>Math.max\<close> of two numbers: NaN if either is NaN, and +0 is larger than -0.
  No rounding is involved: the result is one of the arguments.
\<close>

fun jsMax2 :: "jsnum \<Rightarrow> jsnum \<Rightarrow> jsnum" where
  "jsMax2 NaN b = NaN"
| "jsMax2 a NaN = NaN"
| "jsMax2 PosInf b = PosInf"
| "jsMax2 a PosInf = PosInf"
| "jsMax2 NegInf b = b"
| "jsMax2 a NegInf = a"
| "jsMax2 NegZero NegZero = NegZero"
| "jsMax2 NegZero (Fin b) = (if 0 \<le> b then Fin b else NegZero)"
| "jsMax2 (Fin a) NegZero = (if 0 \<le> a then Fin a else NegZero)"
| "jsMax2 (Fin a) (Fin b) = Fin (max a b)"

text \<open>\<open>Math.max(...xs)\<close>: \<open>-Infinity\<close> when there is no argument.\<close>

definition mathMax :: "jsnum list \<Rightarrow> jsnum" where
  "mathMax xs = foldl jsMax2 NegInf xs"

text \<open>
  The operators \<open>/\<close> and \<open>*\<close> on doubles. The cases with a NaN, an infinity or a zero
  are fixed by IEEE 754, signs included. For two finite non-zero operands the result
  is the exact quotient or product, rounded: \<open>rnd\<close> is that rounding (to nearest, ties
  to even), which gives an infinity on overflow and a zero on underflow. It is a
  parameter of the model; nothing is assumed of it.
\<close>

definition jsDiv :: "(real \<Rightarrow> jsnum) \<Rightarrow> jsnum \<Rightarrow> jsnum \<Rightarrow> jsnum" where
  "jsDiv rnd a b =
     (if a = NaN \<or> b = NaN then NaN
      else if isInfinite a
        then (if isInfinite b then NaN else signedInf (negative a \<noteq> negative b))
      else if isInfinite b then signedZero (negative a \<noteq> negative b)
      else if isZero b
        then (if isZero a then NaN else signedInf (negative a \<noteq> negative b))
      else if isZero a then signedZero (negative a \<noteq> negative b)
      else rnd (valueOf a / valueOf b))"

definition jsMul :: "(real \<Rightarrow> jsnum) \<Rightarrow> jsnum \<Rightarrow> jsnum \<Rightarrow> jsnum" where
  "jsMul rnd a b =
     (if a = NaN \<or> b = NaN then NaN
      else if isInfinite a \<or> isInfinite b
        then (if isZero a \<or> isZero b then NaN else signedInf (negative a \<noteq> negative b))
      else if isZero a \<or> isZero b then signedZero (negative a \<noteq> negative b)
      else rnd (valueOf a * valueOf b))"

text \<open>The global \<open>isFinite\<close>, on a number.\<close>

fun isFinite :: "jsnum \<Rightarrow> bool" where
  "isFinite (Fin a) = True"
| "isFinite NegZero = True"
| "isFinite a = False"

subsection \<open>Selection and datasets\<close>

definition colors :: "string list" where
  "colors =
     [''#667eea'', ''#764ba2'', ''#f093fb'', ''#f5576c'', ''#4facfe'', ''#00f2fe'',
      ''#43e97b'', ''#38f9d7'', ''#fa7093'', ''#fee140'', ''#a8edea'', ''#fed6e3'']"

text \<open>The value of the run selector: \<open>'all'\<close> or the index of a run.\<close>

datatype selection = AllRuns | RunIndex nat

text \<open>
  \<open>selectedRun === 'all' ? trainingData.runs : [trainingData.runs[selectedRun]]\<close>.
  An index out of range gives \<open>[undefined]\<close>, and the first property read on that
  element throws in every caller.
\<close>

definition selectedRuns :: "selection \<Rightarrow> run list \<Rightarrow> js_error + run list" where
  "selectedRuns sel runs =
     (case sel of
        AllRuns \<Rightarrow> Inr runs
      | RunIndex i \<Rightarrow> (if i < length runs then Inr [runs ! i] else Inl TypeError))"

text \<open>A Chart.js dataset; a point \<open>{x, y}\<close> is the pair \<open>(x, y)\<close>.\<close>

record dataset =
  label :: string
  data :: "(int \<times> jsnum) list"
  borderColor :: string
  backgroundColor :: string
  borderWidth :: nat
  fill :: bool
  tension :: real

definition plainDataset :: "string \<Rightarrow> (int \<times> jsnum) list \<Rightarrow> string \<Rightarrow> dataset" where
  "plainDataset lbl points color =
     \<lparr> label = lbl, data = points, borderColor = color,
       backgroundColor = color @ ''20'', borderWidth = 2, fill = False,
       tension = 1 / 10 \<rparr>"



text \<open>
  The body of the \<open>forEach\<close> of \<open>getCombinedChartData\<close>; \<open>rnd\<close> is the rounding of the
  arithmetic.
\<close>

definition combinedRun :: "(real \<Rightarrow> jsnum) \<Rightarrow> nat \<Rightarrow> run \<Rightarrow> dataset list" where
  "combinedRun rnd runIndex r =
     (let color = colors ! (runIndex mod length colors) in
      (case training_metrics r of
         None \<Rightarrow> []
       | Some ms \<Rightarrow>
           if 0 < length ms
           then [plainDataset (run_name r @ '' - Loss'')
                   (map (\<lambda>m. (training_metric.step m, loss m)) ms) color]
           else [])
      @
      (case training_metrics r of
         None \<Rightarrow> []
       | Some ms \<Rightarrow>
           if 0 < length ms
           then
             (let maxLR = mathMax (map learning_rate ms);
                  maxLoss = mathMax (map loss ms);
                  scaleFactor = jsDiv rnd maxLoss maxLR
              in [\<lparr> label = run_name r @ '' - LR (scaled)'',
                     data = map (\<lambda>m. (training_metric.step m,
                                       jsMul rnd (learning_rate m) scaleFactor)) ms,
                     borderColor = color @ ''80'',
                     backgroundColor = color @ ''10'',
                     borderWidth = 1, fill = False, tension = 1 / 10 \<rparr>])
           else []))"

definition getCombinedChartData ::
  "(real \<Rightarrow> jsnum) \<Rightarrow> selection \<Rightarrow> run list \<Rightarrow> js_error + dataset list" where
  "getCombinedChartData rnd sel runs =
     (case selectedRuns sel runs of
        Inl e \<Rightarrow> Inl e
      | Inr rs \<Rightarrow> Inr (concat (map (\<lambda>(runIndex, r). combinedRun rnd runIndex r)
                                 (enumerate 0 rs))))"

section \<open>The run summary\<close>

text \<open>
  A value shown on a run card. The number formatters of JavaScript are kept symbolic:
  \<open>ToFixed v d\<close> stands for the string \<open>v.toFixed(d)\<close>, \<open>ToExponential v d\<close> for
  \<open>v.toExponential(d)\<close>, and \<open>StepRange a b\<close> for the two steps joined by an arrow.
\<close>

datatype display =
    Literal string
  | ToFixed jsnum nat
  | ToExponential jsnum nat
  | StepRange int int

text \<open>The infinity sign U+221E, as its UTF-8 bytes.\<close>

definition infinitySign :: string where
  "infinitySign = [char_of (226::nat), char_of (136::nat), char_of (158::nat)]"

text \<open>\<open>Array.prototype.join\<close>: an \<open>undefined\<close> element is the empty string.\<close>

fun jsJoin :: "string \<Rightarrow> string option list \<Rightarrow> string" where
  "jsJoin sep [] = []"
| "jsJoin sep [x] = (case x of None \<Rightarrow> [] | Some s \<Rightarrow> s)"
| "jsJoin sep (x # y # ys) =
     (case x of None \<Rightarrow> [] | Some s \<Rightarrow> s) @ sep @ jsJoin sep (y # ys)"

record run_card =
  title :: string
  logFiles :: string
  stepRange :: display
  trainingPoints :: nat
  evalPoints :: nat
  finalLoss :: display
  finalLR :: display
  finalPaloma :: display

text \<open>The body of the \<open>forEach\<close> of \<open>updateRunSummary\<close>: the card of one run.\<close>

definition summaryCard :: "run \<Rightarrow> run_card" where
  "summaryCard r =
     \<lparr> title = run_name r,
       logFiles =
         (case log_files r of
            Some fs \<Rightarrow> jsJoin '', '' fs
          | None \<Rightarrow> (case log_file r of Some f \<Rightarrow> f | None \<Rightarrow> ''undefined'')),
       stepRange =
         (case training_metrics r of
            None \<Rightarrow> Literal ''N/A''
          | Some ms \<Rightarrow>
              if 0 < length ms
              then StepRange (training_metric.step (ms ! 0))
                             (training_metric.step (ms ! (length ms - 1)))
              else Literal ''N/A''),
       trainingPoints = (case training_metrics r of None \<Rightarrow> 0 | Some ms \<Rightarrow> length ms),
       evalPoints = (case evaluation_results r of None \<Rightarrow> 0 | Some es \<Rightarrow> length es),
       finalLoss =
         (case training_metrics r of
            None \<Rightarrow> Literal ''N/A''
          | Some ms \<Rightarrow>
              if 0 < length ms then ToFixed (loss (ms ! (length ms - 1))) 4
              else Literal ''N/A''),
       finalLR =
         (case training_metrics r of
            None \<Rightarrow> Literal ''N/A''
          | Some ms \<Rightarrow>
              if 0 < length ms then ToExponential (learning_rate (ms ! (length ms - 1))) 2
              else Literal ''N/A''),
       finalPaloma =
         (case evaluation_results r of
            None \<Rightarrow> Literal ''N/A''
          | Some es \<Rightarrow>
              if 0 < length es
              then (if isFinite (paloma (es ! (length es - 1)))
                    then ToExponential (paloma (es ! (length es - 1))) 2
                    else Literal infinitySign)
              else Literal ''N/A'') \<rparr>"

definition updateRunSummary :: "selection \<Rightarrow> run list \<Rightarrow> js_error + run_card list" where
  "updateRunSummary sel runs =
     (case selectedRuns sel runs of
        Inl e \<Rightarrow> Inl e
      | Inr rs \<Rightarrow> Inr (map summaryCard rs))"

section \<open>Notions used in the statements\<close>

text \<open>The files of the run named \<open>n\<close>, in discovery order (the order of \<open>data.json\<close>).\<close>

definition runGroup :: "string \<Rightarrow> run list \<Rightarrow> run list" where
  "runGroup n runs = filter (\<lambda>r. run_name r = n) runs"

definition trainingSteps :: "run \<Rightarrow> int list" where
  "trainingSteps r = map training_metric.step (samplesOf training_metrics r)"

definition evaluationSteps :: "run \<Rightarrow> int list" where
  "evaluationSteps r = map evaluation_result.step (samplesOf evaluation_results r)"

text \<open>
  The specification's reading of the merged config: the config of the first file, in
  discovery order, that has a non-empty config mapping.
\<close>

definition hasNonEmptyConfig :: "run \<Rightarrow> bool" where
  "hasNonEmptyConfig r = (case config r of None \<Rightarrow> False | Some c \<Rightarrow> c \<noteq> [])"

definition firstNonEmptyConfig :: "run list \<Rightarrow> config_t option" where
  "firstNonEmptyConfig runs =
     (case find hasNonEmptyConfig runs of None \<Rightarrow> None | Some r \<Rightarrow> config r)"

text \<open>
  The duplicate filter read as a recursion: \<open>p\<close> is the element before the rest
  \<open>xs\<close> of the array, and an element is kept when its step differs from its
  predecessor's.
\<close>

fun dropRepeats :: "('a \<Rightarrow> int) \<Rightarrow> 'a \<Rightarrow> 'a list \<Rightarrow> 'a list" where
  "dropRepeats stp p [] = []"
| "dropRepeats stp p (x # xs) =
     (if stp x \<noteq> stp p then x # dropRepeats stp x xs else dropRepeats stp x xs)"

section \<open>Example inputs\<close>

definition sample :: "int \<Rightarrow> real \<Rightarrow> real \<Rightarrow> training_metric" where
  "sample s l lr =
     \<lparr> training_metric.step = s, loss = Fin l, learning_rate = Fin lr, inf_nan_count = 0 \<rparr>"

definition evalAt :: "int \<Rightarrow> jsnum \<Rightarrow> evaluation_result" where
  "evalAt s v = \<lparr> evaluation_result.step = s, paloma = v \<rparr>"

definition logRun ::
  "string \<Rightarrow> string \<Rightarrow> training_metric list \<Rightarrow> evaluation_result list \<Rightarrow> config_t \<Rightarrow> run" where
  "logRun n f ms es c =
     \<lparr> run_name = n, log_file = Some f, log_files = None, training_metrics = Some ms,
       evaluation_results = Some es, config = Some c \<rparr>"

definition exampleA :: run where
  "exampleA = logRun ''A'' ''a.log''
     [sample 0 (1099 / 100) 0, sample 500 (95 / 10) (1 / 1000), sample 1000 (82 / 10) (2 / 1000)]
     [evalAt 1000 (Fin 59434)] [(''d_model'', Number (Fin 96))]"

definition exampleB1 :: run where
  "exampleB1 = logRun ''B'' ''log_1.log'' [sample 0 11 0, sample 500 10 (1 / 1000)]
     [evalAt 500 (Fin 7)] [(''d_model'', Number (Fin 96))]"

definition exampleB2 :: run where
  "exampleB2 = logRun ''B'' ''log_2.log'' [sample 500 9 (2 / 1000), sample 1000 8 (3 / 1000)]
     [evalAt 500 (Fin 6), evalAt 1000 PosInf] []"

definition exampleBMerged :: run where
  "exampleBMerged =
     \<lparr> run_name = ''B'', log_file = None,
       log_files = Some [Some ''log_1.log'', Some ''log_2.log''],
       training_metrics =
         Some [sample 0 11 0, sample 500 10 (1 / 1000), sample 1000 8 (3 / 1000)],
       evaluation_results = Some [evalAt 500 (Fin 7), evalAt 1000 PosInf],
       config = Some [(''d_model'', Number (Fin 96))] \<rparr>"

definition exampleRepeat :: run where
  "exampleRepeat = logRun ''R'' ''r.log'' [sample 5 3 0, sample 5 2 0] [] []"

definition exampleD1 :: run where
  "exampleD1 = logRun ''D'' ''d_1.log'' [sample 5 3 0, sample 5 2 0] [] []"

definition exampleD2 :: run where
  "exampleD2 = logRun ''D'' ''d_2.log'' [sample 7 1 0] [] []"

definition exampleDMerged :: run where
  "exampleDMerged =
     \<lparr> run_name = ''D'', log_file = None,
       log_files = Some [Some ''d_1.log'', Some ''d_2.log''],
       training_metrics = Some [sample 5 3 0, sample 7 1 0],
       evaluation_results = Some [], config = Some [] \<rparr>"

definition exampleE1 :: run where
  "exampleE1 = logRun ''E'' ''e_1.log'' [sample 1000 8 0, sample 1500 7 0] [] []"

definition exampleE2 :: run where
  "exampleE2 = logRun ''E'' ''e_2.log'' [sample 0 11 0, sample 500 10 0] [] []"

definition exampleEMerged :: run where
  "exampleEMerged =
     \<lparr> run_name = ''E'', log_file = None,
       log_files = Some [Some ''e_1.log'', Some ''e_2.log''],
       training_metrics = Some [sample 0 11 0, sample 500 10 0, sample 1000 8 0, sample 1500 7 0],
       evaluation_results = Some [], config = Some [] \<rparr>"

definition exampleC1 :: run where
  "exampleC1 = logRun ''C'' ''c_1.log'' [sample 0 11 0] [] []"

definition exampleC2 :: run where
  "exampleC2 = logRun ''C'' ''c_2.log'' [sample 500 10 0] [] [(''d_model'', Number (Fin 96))]"

definition exampleCMerged :: run where
  "exampleCMerged =
     \<lparr> run_name = ''C'', log_file = None,
       log_files = Some [Some ''c_1.log'', Some ''c_2.log''],
       training_metrics = Some [sample 0 11 0, sample 500 10 0],
       evaluation_results = Some [], config = Some [] \<rparr>"

text \<open>
  The rounding on results that are doubles themselves. The examples below that reach
  it have dyadic values whose quotients and products are exact.
\<close>

definition exactRounding :: "real \<Rightarrow> jsnum" where
  "exactRounding x = Fin x"

definition exampleP :: run where
  "exampleP = logRun ''P'' ''p.log''
     [sample 0 8 0, sample 500 6 (1 / 4), sample 1000 4 (1 / 2)] [] []"

definition exampleZ :: run where
  "exampleZ = logRun ''Z'' ''z.log'' [sample 0 11 0, sample 500 10 0] [] []"

definition exampleEmpty :: run where
  "exampleEmpty =
     \<lparr> run_name = ''N'', log_file = Some ''n.log'', log_files = None,
       training_metrics = None, evaluation_results = Some [], config = None \<rparr>"

section \<open>The duplicate filter\<close>

lemma filter_enumerate_dropRepeats:
  "map snd (filter (\<lambda>(index, metric). index = 0 \<or> stp metric \<noteq> stp ((pre @ p # xs) ! (index - 1)))
                   (enumerate (Suc (length pre)) xs)) = dropRepeats stp p xs"
proof (induction xs arbitrary: pre p)
  case Nil
  then show ?case by simp
next
  case (Cons x xs)
  have "map snd (filter (\<lambda>(index, metric). index = 0 \<or> stp metric \<noteq> stp (((pre @ [p]) @ x # xs) ! (index - 1)))
                   (enumerate (Suc (length (pre @ [p]))) xs)) = dropRepeats stp x xs"
    by (rule Cons.IH)
  then show ?case by (simp add: nth_append)
qed

lemma removeDuplicateSteps_Nil: "removeDuplicateSteps stp [] = []"
  by (simp add: removeDuplicateSteps_def)

lemma removeDuplicateSteps_Cons:
  "removeDuplicateSteps stp (x # xs) = x # dropRepeats stp x xs"
  using filter_enumerate_dropRepeats [of stp "[]" x xs]
  by (simp add: removeDuplicateSteps_def)

lemma filter_dropRepeats:
  "sorted (map stp (p # xs)) \<Longrightarrow>
   filter (\<lambda>x. stp x = k) (dropRepeats stp p xs) =
     (if stp p = k then [] else take 1 (filter (\<lambda>x. stp x = k) xs))"
proof (induction xs arbitrary: p)
  case Nil
  then show ?case by simp
next
  case (Cons x xs)
  from Cons.prems have srt: "sorted (map stp (x # xs))" and le: "stp p \<le> stp x"
    by simp_all
  note IH = Cons.IH [OF srt]
  have later: "filter (\<lambda>y. stp y = k) xs = []" if "stp p = k" "stp x \<noteq> k"
  proof -
    from that le have "k < stp x" by simp
    moreover from srt have "\<forall>y\<in>set xs. stp x \<le> stp y" by simp
    ultimately have "\<forall>y\<in>set xs. stp y \<noteq> k" by fastforce
    then show ?thesis by (simp add: filter_empty_conv)
  qed
  show ?case using IH later by auto
qed

lemma filter_removeDuplicateSteps:
  "sorted (map stp xs) \<Longrightarrow>
   filter (\<lambda>x. stp x = k) (removeDuplicateSteps stp xs) = take 1 (filter (\<lambda>x. stp x = k) xs)"
proof (cases xs)
  case Nil
  then show ?thesis by (simp add: removeDuplicateSteps_Nil)
next
  case (Cons a list)
  assume "sorted (map stp xs)"
  with Cons have "sorted (map stp (a # list))" by simp
  from filter_dropRepeats [OF this, of k] Cons show ?thesis
    by (simp add: removeDuplicateSteps_Cons)
qed

lemma set_dropRepeats: "set (dropRepeats stp p xs) \<subseteq> set xs"
  by (induction xs arbitrary: p) auto

lemma set_removeDuplicateSteps: "set (removeDuplicateSteps stp xs) \<subseteq> set xs"
  using set_dropRepeats [of stp]
  by (cases xs) (auto simp add: removeDuplicateSteps_Nil removeDuplicateSteps_Cons)

lemma steps_dropRepeats: "stp ` set (p # dropRepeats stp p xs) = stp ` set (p # xs)"
proof (induction xs arbitrary: p)
  case Nil
  then show ?case by simp
next
  case (Cons x xs)
  have IH: "insert (stp x) (stp ` set (dropRepeats stp x xs)) = insert (stp x) (stp ` set xs)"
    using Cons.IH [of x] by simp
  show ?case
  proof (cases "stp x = stp p")
    case True
    with IH show ?thesis by simp
  next
    case False
    with IH show ?thesis by simp
  qed
qed

lemma steps_removeDuplicateSteps: "stp ` set (removeDuplicateSteps stp xs) = stp ` set xs"
  using steps_dropRepeats [of stp]
  by (cases xs) (simp_all add: removeDuplicateSteps_Nil removeDuplicateSteps_Cons)

lemma strict_dropRepeats:
  "sorted (map stp (p # xs)) \<Longrightarrow> sorted_wrt (<) (map stp (p # dropRepeats stp p xs))"
proof (induction xs arbitrary: p)
  case Nil
  then show ?case by simp
next
  case (Cons x xs)
  from Cons.prems have srt: "sorted (map stp (x # xs))" and le: "stp p \<le> stp x"
    by simp_all
  from Cons.IH [OF srt] have IH: "sorted_wrt (<) (map stp (x # dropRepeats stp x xs))" .
  show ?case
  proof (cases "stp x = stp p")
    case True
    with IH show ?thesis by simp
  next
    case False
    with le have "stp p < stp x" by simp
    with IH show ?thesis by auto
  qed
qed

lemma strict_removeDuplicateSteps:
  "sorted (map stp xs) \<Longrightarrow> sorted_wrt (<) (map stp (removeDuplicateSteps stp xs))"
  using strict_dropRepeats [of stp]
  by (cases xs) (simp_all add: removeDuplicateSteps_Nil removeDuplicateSteps_Cons)

lemma dropRepeats_distinct:
  "distinct (map stp (p # xs)) \<Longrightarrow> dropRepeats stp p xs = xs"
  by (induction xs arbitrary: p) auto

lemma removeDuplicateSteps_distinct:
  "distinct (map stp xs) \<Longrightarrow> removeDuplicateSteps stp xs = xs"
  by (cases xs) (simp_all add: removeDuplicateSteps_Nil removeDuplicateSteps_Cons dropRepeats_distinct)

section \<open>Grouping and the merged run list\<close>

lemma map_of_pushRun:
  "map_of (pushRun r gs) k =
     (if k = run_name r
      then Some ((case map_of gs k of None \<Rightarrow> [] | Some rs \<Rightarrow> rs) @ [r])
      else map_of gs k)"
  by (induction r gs rule: pushRun.induct) auto

lemma keys_pushRun: "fst ` set (pushRun r gs) = insert (run_name r) (fst ` set gs)"
  by (induction r gs rule: pushRun.induct) auto

lemma distinct_pushRun:
  "distinct (map fst gs) \<Longrightarrow> distinct (map fst (pushRun r gs))"
proof (induction r gs rule: pushRun.induct)
  case (1 r)
  then show ?case by simp
next
  case (2 r k rs gs)
  then show ?case using keys_pushRun [of r gs] by (auto simp: image_iff)
qed

lemma distinct_groupRuns:
  "groupRuns gs runs = Inr g \<Longrightarrow> distinct (map fst gs) \<Longrightarrow> distinct (map fst g)"
  by (induction gs runs rule: groupRuns.induct) (auto split: if_splits simp: distinct_pushRun)

lemma map_of_groupRuns:
  "groupRuns gs runs = Inr g \<Longrightarrow>
   map_of g k =
     (if runGroup k runs = [] then map_of gs k
      else Some ((case map_of gs k of None \<Rightarrow> [] | Some rs \<Rightarrow> rs) @ runGroup k runs))"
proof (induction gs runs rule: groupRuns.induct)
  case (1 gs)
  then show ?case by (simp add: runGroup_def)
next
  case (2 gs r rs)
  from "2.prems" have ok: "\<not> List.member objectPrototypeKeys (run_name r)"
    and rest: "groupRuns (pushRun r gs) rs = Inr g"
    by (simp_all split: if_splits)
  from "2.IH" [OF ok rest] show ?case
    by (auto simp: map_of_pushRun runGroup_def split: option.splits)
qed

lemma groupRuns_entries:
  assumes "groupRuns [] runs = Inr g"
  shows "distinct (map fst g)"
    and "(k, rs) \<in> set g \<longleftrightarrow> rs = runGroup k runs \<and> rs \<noteq> []"
proof -
  show d: "distinct (map fst g)"
    using distinct_groupRuns [OF assms] by simp
  have "(k, rs) \<in> set g \<longleftrightarrow> map_of g k = Some rs"
    using d by simp
  also have "\<dots> \<longleftrightarrow> rs = runGroup k runs \<and> rs \<noteq> []"
    using map_of_groupRuns [OF assms, of k] by auto
  finally show "(k, rs) \<in> set g \<longleftrightarrow> rs = runGroup k runs \<and> rs \<noteq> []" .
qed

lemma groupRuns_total:
  "list_all (\<lambda>r. \<not> List.member objectPrototypeKeys (run_name r)) runs \<Longrightarrow>
   \<exists>g. groupRuns gs runs = Inr g"
  by (induction gs runs rule: groupRuns.induct) auto

lemma set_objectEntries: "set (objectEntries gs) = set gs"
  by (auto simp: objectEntries_def)

lemma mset_objectEntries: "mset (objectEntries gs) = mset gs"
  by (simp add: objectEntries_def)

lemma distinct_objectEntries:
  "distinct (map fst gs) \<Longrightarrow> distinct (map fst (objectEntries gs))"
proof -
  assume d: "distinct (map fst gs)"
  have "mset (map fst (objectEntries gs)) = mset (map fst gs)"
    using mset_objectEntries [of gs] by (metis mset_map)
  then show ?thesis using d by (metis mset_eq_imp_distinct_iff)
qed

lemma mergeEntries_Inr:
  "mergeEntries es = Inr out \<Longrightarrow>
   list_all2 (\<lambda>e m. mergeGroup (fst e) (snd e) = Inr m) es out"
  by (induction es arbitrary: out rule: mergeEntries.induct) (auto split: sum.splits)

lemma mergeGroup_total: "rs \<noteq> [] \<Longrightarrow> \<exists>m. mergeGroup k rs = Inr m"
  by (cases "(k, rs)" rule: mergeGroup.cases) auto

lemma mergeEntries_total:
  "list_all (\<lambda>e. snd e \<noteq> []) es \<Longrightarrow> \<exists>out. mergeEntries es = Inr out"
proof (induction es rule: mergeEntries.induct)
  case 1
  then show ?case by simp
next
  case (2 baseName runs es)
  from "2.prems" obtain m where m: "mergeGroup baseName runs = Inr m"
    using mergeGroup_total [of runs baseName] by auto
  from "2.prems" "2.IH" [OF m] obtain ms where "mergeEntries es = Inr ms" by auto
  with m show ?case by simp
qed

lemma mergeGroup_name_gen:
  "mergeGroup k rs = Inr m \<Longrightarrow> list_all (\<lambda>r. run_name r = k) rs \<Longrightarrow> run_name m = k"
  by (induction k rs rule: mergeGroup.induct) (auto simp: mergedRun_def)

lemma mergeGroup_name:
  "mergeGroup k (runGroup k runs) = Inr m \<Longrightarrow> run_name m = k"
proof -
  assume a: "mergeGroup k (runGroup k runs) = Inr m"
  have "list_all (\<lambda>r. run_name r = k) (runGroup k runs)"
    by (auto simp: runGroup_def list_all_iff)
  with a show ?thesis by (rule mergeGroup_name_gen)
qed

lemma merge_output:
  assumes "mergeContinuationLogs runs = Inr out"
  shows "distinct (map run_name out)"
    and "m \<in> set out \<longleftrightarrow>
         runGroup (run_name m) runs \<noteq> [] \<and>
         mergeGroup (run_name m) (runGroup (run_name m) runs) = Inr m"
proof -
  from assms obtain g where g: "groupRuns [] runs = Inr g"
    and me: "mergeEntries (objectEntries g) = Inr out"
    by (auto simp: mergeContinuationLogs_def split: sum.splits)
  let ?es = "objectEntries g"
  have l2: "list_all2 (\<lambda>e m. mergeGroup (fst e) (snd e) = Inr m) ?es out"
    by (rule mergeEntries_Inr [OF me])
  have ent: "\<And>k rs. (k, rs) \<in> set ?es \<longleftrightarrow> rs = runGroup k runs \<and> rs \<noteq> []"
    using groupRuns_entries(2) [OF g] by (simp add: set_objectEntries)
  have dk: "distinct (map fst ?es)"
    using groupRuns_entries(1) [OF g] by (rule distinct_objectEntries)
  have names: "map run_name out = map fst ?es"
  proof (rule nth_equalityI)
    show "length (map run_name out) = length (map fst ?es)"
      using l2 by (simp add: list_all2_lengthD)
  next
    fix i assume "i < length (map run_name out)"
    then have i: "i < length out" by simp
    with l2 have il: "i < length ?es" by (simp add: list_all2_lengthD)
    from l2 i have mg: "mergeGroup (fst (?es ! i)) (snd (?es ! i)) = Inr (out ! i)"
      by (simp add: list_all2_conv_all_nth)
    from il have "(fst (?es ! i), snd (?es ! i)) \<in> set ?es" by simp
    with ent have "snd (?es ! i) = runGroup (fst (?es ! i)) runs" by blast
    with mg have "run_name (out ! i) = fst (?es ! i)"
      using mergeGroup_name by metis
    with i il show "map run_name out ! i = map fst ?es ! i" by simp
  qed
  with dk show "distinct (map run_name out)" by simp
  show "m \<in> set out \<longleftrightarrow>
         runGroup (run_name m) runs \<noteq> [] \<and>
         mergeGroup (run_name m) (runGroup (run_name m) runs) = Inr m"
  proof
    assume "m \<in> set out"
    then obtain i where i: "i < length out" and mi: "out ! i = m"
      by (auto simp: in_set_conv_nth)
    with l2 have il: "i < length ?es" by (simp add: list_all2_lengthD)
    from l2 i mi have mg: "mergeGroup (fst (?es ! i)) (snd (?es ! i)) = Inr m"
      by (auto simp: list_all2_conv_all_nth)
    from il have "(fst (?es ! i), snd (?es ! i)) \<in> set ?es" by simp
    with ent have e: "snd (?es ! i) = runGroup (fst (?es ! i)) runs" "snd (?es ! i) \<noteq> []"
      by blast+
    from mg e have "run_name m = fst (?es ! i)" using mergeGroup_name by metis
    with mg e show "runGroup (run_name m) runs \<noteq> [] \<and>
         mergeGroup (run_name m) (runGroup (run_name m) runs) = Inr m" by simp
  next
    assume a: "runGroup (run_name m) runs \<noteq> [] \<and>
         mergeGroup (run_name m) (runGroup (run_name m) runs) = Inr m"
    then have "(run_name m, runGroup (run_name m) runs) \<in> set ?es"
      using ent by blast
    then obtain i where il: "i < length ?es"
      and ei: "?es ! i = (run_name m, runGroup (run_name m) runs)"
      by (auto simp: in_set_conv_nth)
    from l2 il have i: "i < length out" by (simp add: list_all2_lengthD)
    from l2 il ei have "mergeGroup (run_name m) (runGroup (run_name m) runs) = Inr (out ! i)"
      by (auto simp: list_all2_conv_all_nth)
    with a have "out ! i = m" by simp
    with i show "m \<in> set out" by auto
  qed
qed

lemma merge_total:
  assumes "list_all (\<lambda>r. \<not> List.member objectPrototypeKeys (run_name r)) runs"
  shows "\<exists>out. mergeContinuationLogs runs = Inr out"
proof -
  from groupRuns_total [OF assms] obtain g where g: "groupRuns [] runs = Inr g" by blast
  have "\<And>k rs. (k, rs) \<in> set (objectEntries g) \<Longrightarrow> rs \<noteq> []"
    using groupRuns_entries(2) [OF g] by (simp add: set_objectEntries)
  then have "list_all (\<lambda>e. snd e \<noteq> []) (objectEntries g)"
    by (auto simp: list_all_iff)
  from mergeEntries_total [OF this] g show ?thesis
    by (simp add: mergeContinuationLogs_def)
qed

lemma find_filter_hd: "find P xs = Some x \<Longrightarrow> \<exists>ys. filter P xs = x # ys"
  by (induction xs) (auto split: if_splits)

lemma take1_filter_concat:
  "find (\<lambda>r. \<exists>y\<in>set (f r). P y) rs = Some r \<Longrightarrow> find P (f r) = Some x \<Longrightarrow>
   take 1 (filter P (concat (map f rs))) = [x]"
proof (induction rs)
  case Nil
  then show ?case by simp
next
  case (Cons r' rs)
  show ?case
  proof (cases "\<exists>y\<in>set (f r'). P y")
    case True
    with Cons.prems have "r = r'" by simp
    with Cons.prems obtain ys where "filter P (f r') = x # ys"
      using find_filter_hd by metis
    then show ?thesis by simp
  next
    case False
    then have "filter P (f r') = []" by (simp add: filter_empty_conv)
    moreover from False Cons.prems have "find (\<lambda>r. \<exists>y\<in>set (f r). P y) rs = Some r" by simp
    ultimately show ?thesis using Cons.IH Cons.prems(2) by simp
  qed
qed

lemma filter_merged_samples:
  "filter (\<lambda>x. stp x = k) (removeDuplicateSteps stp (sort_key stp xs)) =
     take 1 (filter (\<lambda>x. stp x = k) xs)"
  by (simp add: filter_removeDuplicateSteps sorted_sort_key sort_key_stable)

lemma strict_merged_samples:
  "sorted_wrt (<) (map stp (removeDuplicateSteps stp (sort_key stp xs)))"
  by (simp add: strict_removeDuplicateSteps sorted_sort_key)

lemma set_merged_samples:
  "set (removeDuplicateSteps stp (sort_key stp xs)) \<subseteq> set xs"
  using set_removeDuplicateSteps [of stp "sort_key stp xs"] by simp

lemma steps_merged_samples:
  "stp ` set (removeDuplicateSteps stp (sort_key stp xs)) = stp ` set xs"
  by (simp add: steps_removeDuplicateSteps)

lemma merged_samples_distinct:
  "distinct (map stp xs) \<Longrightarrow> removeDuplicateSteps stp (sort_key stp xs) = sort_key stp xs"
proof -
  assume "distinct (map stp xs)"
  then have "distinct (map stp (sort_key stp xs))"
    by (metis distinct_map distinct_sort set_sort)
  then show ?thesis by (rule removeDuplicateSteps_distinct)
qed

lemma mergeGroup_multi:
  "1 < length rs \<Longrightarrow> mergeGroup k rs = Inr m \<Longrightarrow> m = mergedRun k (hd rs) rs"
  by (induction k rs rule: mergeGroup.induct) auto

lemma merged_of_group:
  assumes "mergeContinuationLogs runs = Inr out" and "m \<in> set out"
    and "1 < length (runGroup (run_name m) runs)"
  shows "m = mergedRun (run_name m) (hd (runGroup (run_name m) runs)) (runGroup (run_name m) runs)"
  using merge_output(2) [OF assms(1), of m] assms(2,3) mergeGroup_multi by blast

lemma distinct_map_filter_single:
  "distinct (map f xs) \<Longrightarrow> x \<in> set xs \<Longrightarrow> filter (\<lambda>y. f y = f x) xs = [x]"
proof (induction xs)
  case Nil
  then show ?case by simp
next
  case (Cons a xs)
  show ?case
  proof (cases "a = x")
    case True
    from Cons.prems(1) have "f a \<notin> f ` set xs" by simp
    then have "\<forall>y\<in>set xs. f y \<noteq> f a" by (metis imageI)
    then have "filter (\<lambda>y. f y = f a) xs = []" by (simp add: filter_empty_conv)
    with True show ?thesis by simp
  next
    case False
    with Cons.prems have "x \<in> set xs" "f a \<noteq> f x" by auto
    with Cons show ?thesis by simp
  qed
qed

lemma set_pushAll: "set (pushAll field rs) = (\<Union>r\<in>set rs. set (samplesOf field r))"
  by (simp add: pushAll_def)

section \<open>The examples, merged\<close>

lemma merge_exampleB: "mergeContinuationLogs [exampleB1, exampleB2] = Inr [exampleBMerged]"
  by code_simp

lemma merge_exampleAB:
  "mergeContinuationLogs [exampleB1, exampleA, exampleB2] = Inr [exampleBMerged, exampleA]"
  by code_simp

lemma merge_exampleD: "mergeContinuationLogs [exampleD1, exampleD2] = Inr [exampleDMerged]"
  by code_simp

lemma merge_exampleE: "mergeContinuationLogs [exampleE1, exampleE2] = Inr [exampleEMerged]"
  by code_simp

lemma merge_exampleC: "mergeContinuationLogs [exampleC1, exampleC2] = Inr [exampleCMerged]"
  by code_simp

section \<open>Claims about mergeContinuationLogs\<close>

text \<open>
  The statements below speak of a merge that returns: \<open>mergeContinuationLogs runs = Inr out\<close>.
  It returns for every input in which no run is named like a property of
  \<open>Object.prototype\<close> (lemma \<open>merge_total\<close>); for such a name the code throws.
\<close>

text \<open>
  C1: in a group of more than one file, for every step \<open>s\<close> that occurs in some file of
  the group, the merged run keeps exactly one training sample with step \<open>s\<close>, and it is
  the sample of the first file in discovery order that has the step (the first such
  sample of that file).
\<close>

theorem merge_keeps_first_file_sample:
  assumes "mergeContinuationLogs runs = Inr out" and "m \<in> set out"
    and "1 < length (runGroup (run_name m) runs)"
    and "find (\<lambda>r. s \<in> set (trainingSteps r)) (runGroup (run_name m) runs) = Some r"
    and "find (\<lambda>x. training_metric.step x = s) (samplesOf training_metrics r) = Some x"
  shows "filter (\<lambda>y. training_metric.step y = s) (samplesOf training_metrics m) = [x]"
proof -
  let ?g = "runGroup (run_name m) runs"
  have m: "m = mergedRun (run_name m) (hd ?g) ?g"
    by (rule merged_of_group [OF assms(1,2,3)])
  have "samplesOf training_metrics (mergedRun (run_name m) (hd ?g) ?g) =
      removeDuplicateSteps training_metric.step
        (sort_key training_metric.step (pushAll training_metrics ?g))"
    by (simp add: mergedRun_def samplesOf_def)
  with m have tm: "samplesOf training_metrics m =
      removeDuplicateSteps training_metric.step
        (sort_key training_metric.step (pushAll training_metrics ?g))"
    by simp
  have "(\<lambda>r. s \<in> set (trainingSteps r)) =
      (\<lambda>r. \<exists>y\<in>set (samplesOf training_metrics r). training_metric.step y = s)"
    by (auto simp: trainingSteps_def)
  with assms(4)
  have f: "find (\<lambda>r. \<exists>y\<in>set (samplesOf training_metrics r). training_metric.step y = s) ?g
      = Some r"
    by simp
  have "take 1 (filter (\<lambda>y. training_metric.step y = s) (pushAll training_metrics ?g)) = [x]"
    unfolding pushAll_def by (rule take1_filter_concat [OF f assms(5)])
  with tm show ?thesis by (simp add: filter_merged_samples)
qed

theorem merge_keeps_first_file_sample_witness:
  "mergeContinuationLogs [exampleB1, exampleB2] = Inr [exampleBMerged] \<and>
   filter (\<lambda>y. training_metric.step y = 500) (samplesOf training_metrics exampleBMerged)
     = [sample 500 10 (1 / 1000)]"
proof -
  have h1: "mergeContinuationLogs [exampleB1, exampleB2] = Inr [exampleBMerged]"
    by (rule merge_exampleB)
  have h2: "exampleBMerged \<in> set [exampleBMerged]" by simp
  have h3: "1 < length (runGroup (run_name exampleBMerged) [exampleB1, exampleB2])"
    by code_simp
  have h4: "find (\<lambda>r. 500 \<in> set (trainingSteps r))
           (runGroup (run_name exampleBMerged) [exampleB1, exampleB2]) = Some exampleB1"
    by code_simp
  have h5: "find (\<lambda>x. training_metric.step x = 500) (samplesOf training_metrics exampleB1)
       = Some (sample 500 10 (1 / 1000))"
    by (simp add: exampleB1_def logRun_def samplesOf_def sample_def)
  from merge_keeps_first_file_sample [OF h1 h2 h3 h4 h5] h1 show ?thesis by simp
qed

text \<open>
  C2 fails for a single-file group: such a run is pushed as it is, so a step repeated
  in its file stays repeated.
\<close>

theorem single_file_run_keeps_repeated_step:
  "mergeContinuationLogs [exampleRepeat] = Inr [exampleRepeat] \<and>
   \<not> sorted_wrt (<) (trainingSteps exampleRepeat)"
  by (simp add: mergeContinuationLogs_def exampleRepeat_def logRun_def objectEntries_def
      isArrayIndex_def isDigit_def objectPrototypeKeys_def trainingSteps_def samplesOf_def sample_def)

text \<open>
  C2, amended: every run of the post-merge list that comes from a group of more than
  one file has training_metrics and evaluation_results strictly increasing in step;
  a run of a single-file group is that file's run itself, with its lists as they were.
\<close>

theorem merged_steps_strictly_increasing:
  assumes "mergeContinuationLogs runs = Inr out" and "m \<in> set out"
  shows "if 1 < length (runGroup (run_name m) runs)
         then sorted_wrt (<) (trainingSteps m) \<and> sorted_wrt (<) (evaluationSteps m)
         else runGroup (run_name m) runs = [m]"
proof (cases "1 < length (runGroup (run_name m) runs)")
  case True
  let ?g = "runGroup (run_name m) runs"
  have m: "m = mergedRun (run_name m) (hd ?g) ?g"
    by (rule merged_of_group [OF assms True])
  have "sorted_wrt (<) (trainingSteps (mergedRun (run_name m) (hd ?g) ?g))"
    by (simp add: trainingSteps_def mergedRun_def samplesOf_def strict_merged_samples)
  moreover have "sorted_wrt (<) (evaluationSteps (mergedRun (run_name m) (hd ?g) ?g))"
    by (simp add: evaluationSteps_def mergedRun_def samplesOf_def strict_merged_samples)
  ultimately show ?thesis using m True by simp
next
  case False
  let ?g = "runGroup (run_name m) runs"
  from merge_output(2) [OF assms(1), of m] assms(2)
  have ne: "?g \<noteq> []" and mg: "mergeGroup (run_name m) ?g = Inr m" by simp_all
  from ne False obtain r where r: "?g = [r]"
    by (cases ?g) (auto simp: Suc_lessI)
  with mg have "r = m" by simp
  with r False show ?thesis by simp
qed

theorem merged_steps_strictly_increasing_witness:
  "mergeContinuationLogs [exampleB1, exampleA, exampleB2] = Inr [exampleBMerged, exampleA] \<and>
   sorted_wrt (<) (trainingSteps exampleBMerged) \<and> sorted_wrt (<) (evaluationSteps exampleBMerged) \<and>
   runGroup (run_name exampleA) [exampleB1, exampleA, exampleB2] = [exampleA]"
proof -
  have h1: "mergeContinuationLogs [exampleB1, exampleA, exampleB2] = Inr [exampleBMerged, exampleA]"
    by (rule merge_exampleAB)
  have gB: "1 < length (runGroup (run_name exampleBMerged) [exampleB1, exampleA, exampleB2])"
    by (simp add: runGroup_def exampleBMerged_def exampleB1_def exampleB2_def exampleA_def logRun_def)
  have gA: "\<not> 1 < length (runGroup (run_name exampleA) [exampleB1, exampleA, exampleB2])"
    by (simp add: runGroup_def exampleB1_def exampleB2_def exampleA_def logRun_def)
  from merged_steps_strictly_increasing [OF h1, of exampleBMerged] gB
  have "sorted_wrt (<) (trainingSteps exampleBMerged) \<and> sorted_wrt (<) (evaluationSteps exampleBMerged)"
    by simp
  moreover from merged_steps_strictly_increasing [OF h1, of exampleA] gA
  have "runGroup (run_name exampleA) [exampleB1, exampleA, exampleB2] = [exampleA]"
    by simp
  ultimately show ?thesis using h1 by simp
qed

text \<open>
  C5 fails when one of the two files repeats a step of its own: the two step ranges are
  disjoint, and the repeated sample is dropped all the same.
\<close>

theorem disjoint_pair_with_repeated_step_dropped:
  "set (trainingSteps exampleD1) \<inter> set (trainingSteps exampleD2) = {} \<and>
   mergeContinuationLogs [exampleD1, exampleD2] = Inr [exampleDMerged] \<and>
   length (samplesOf training_metrics exampleDMerged) \<noteq>
     length (samplesOf training_metrics exampleD1) + length (samplesOf training_metrics exampleD2)"
proof -
  have "set (trainingSteps exampleD1) \<inter> set (trainingSteps exampleD2) = {}"
    by (simp add: trainingSteps_def samplesOf_def exampleD1_def exampleD2_def logRun_def sample_def)
  moreover have "length (samplesOf training_metrics exampleDMerged) \<noteq>
     length (samplesOf training_metrics exampleD1) + length (samplesOf training_metrics exampleD2)"
    by (simp add: samplesOf_def exampleD1_def exampleD2_def exampleDMerged_def logRun_def)
  ultimately show ?thesis using merge_exampleD by simp
qed

text \<open>
  C5, amended: for a pair of files of one run name in which no step value occurs twice
  (neither in both files nor twice in one), the merged training_metrics are the
  concatenation of the two lists stably sorted by step, and no sample is dropped.
\<close>

theorem distinct_pair_merge_is_sorted_concat:
  assumes "mergeContinuationLogs runs = Inr out" and "m \<in> set out"
    and "runGroup (run_name m) runs = [r1, r2]"
    and "distinct (trainingSteps r1 @ trainingSteps r2)"
  shows "training_metrics m =
           Some (sort_key training_metric.step
                  (samplesOf training_metrics r1 @ samplesOf training_metrics r2)) \<and>
         length (samplesOf training_metrics m) =
           length (samplesOf training_metrics r1) + length (samplesOf training_metrics r2)"
proof -
  let ?xs = "samplesOf training_metrics r1 @ samplesOf training_metrics r2"
  from merge_output(2) [OF assms(1), of m] assms(2,3)
  have "mergeGroup (run_name m) [r1, r2] = Inr m" by simp
  then have m: "m = mergedRun (run_name m) r1 [r1, r2]" by simp
  have d: "distinct (map training_metric.step ?xs)"
    using assms(4) by (simp add: trainingSteps_def)
  have "training_metrics (mergedRun (run_name m) r1 [r1, r2]) =
      Some (removeDuplicateSteps training_metric.step (sort_key training_metric.step ?xs))"
    by (simp add: mergedRun_def pushAll_def)
  with m have "training_metrics m =
      Some (removeDuplicateSteps training_metric.step (sort_key training_metric.step ?xs))"
    by simp
  with d have tm: "training_metrics m = Some (sort_key training_metric.step ?xs)"
    by (simp add: merged_samples_distinct)
  then have "samplesOf training_metrics m = sort_key training_metric.step ?xs"
    by (simp add: samplesOf_def)
  then have "length (samplesOf training_metrics m) =
      length (samplesOf training_metrics r1) + length (samplesOf training_metrics r2)"
    by simp
  with tm show ?thesis by simp
qed

theorem distinct_pair_merge_is_sorted_concat_witness:
  "mergeContinuationLogs [exampleE1, exampleE2] = Inr [exampleEMerged] \<and>
   distinct (trainingSteps exampleE1 @ trainingSteps exampleE2) \<and>
   training_metrics exampleEMerged =
     Some (sort_key training_metric.step
            (samplesOf training_metrics exampleE1 @ samplesOf training_metrics exampleE2)) \<and>
   length (samplesOf training_metrics exampleEMerged) = 2 + 2"
proof -
  have h1: "mergeContinuationLogs [exampleE1, exampleE2] = Inr [exampleEMerged]"
    by (rule merge_exampleE)
  have h2: "exampleEMerged \<in> set [exampleEMerged]" by simp
  have h3: "runGroup (run_name exampleEMerged) [exampleE1, exampleE2] = [exampleE1, exampleE2]"
    by code_simp
  have h4: "distinct (trainingSteps exampleE1 @ trainingSteps exampleE2)"
    by code_simp
  have l1: "length (samplesOf training_metrics exampleE1) = 2"
    by (simp add: samplesOf_def exampleE1_def logRun_def)
  have l2: "length (samplesOf training_metrics exampleE2) = 2"
    by (simp add: samplesOf_def exampleE2_def logRun_def)
  from distinct_pair_merge_is_sorted_concat [OF h1 h2 h3 h4] h1 h4 l1 l2
  show ?thesis by simp
qed

text \<open>
  C6 fails when the first file of the group has an empty config mapping and a later
  file a non-empty one: the merged config is the first file's, empty as it is.
\<close>

theorem merged_config_ignores_later_file:
  "mergeContinuationLogs [exampleC1, exampleC2] = Inr [exampleCMerged] \<and>
   config exampleCMerged \<noteq> firstNonEmptyConfig [exampleC1, exampleC2]"
proof -
  have "firstNonEmptyConfig [exampleC1, exampleC2] = Some [(''d_model'', Number (Fin 96))]"
    by (simp add: firstNonEmptyConfig_def hasNonEmptyConfig_def exampleC1_def exampleC2_def
        logRun_def)
  moreover have "config exampleCMerged = Some []"
    by (simp add: exampleCMerged_def)
  ultimately show ?thesis using merge_exampleC by simp
qed

text \<open>
  C6, amended: for a group of more than one file, the merged run's config is the
  config of the first file of the group in discovery order, whether or not that
  mapping is empty; when the first file has no config it is the empty mapping.
\<close>

theorem merged_config_is_first_files:
  assumes "mergeContinuationLogs runs = Inr out" and "m \<in> set out"
    and "runGroup (run_name m) runs = r0 # r1 # rest"
  shows "config m = Some (case config r0 of None \<Rightarrow> [] | Some c \<Rightarrow> c)"
proof -
  from merge_output(2) [OF assms(1), of m] assms(2,3)
  have "mergeGroup (run_name m) (r0 # r1 # rest) = Inr m" by simp
  then have "m = mergedRun (run_name m) r0 (r0 # r1 # rest)" by simp
  moreover have "config (mergedRun (run_name m) r0 (r0 # r1 # rest)) =
      Some (case config r0 of None \<Rightarrow> [] | Some c \<Rightarrow> c)"
    by (simp add: mergedRun_def)
  ultimately show ?thesis by simp
qed

theorem merged_config_is_first_files_witness:
  "mergeContinuationLogs [exampleC1, exampleC2] = Inr [exampleCMerged] \<and>
   runGroup (run_name exampleCMerged) [exampleC1, exampleC2] = [exampleC1, exampleC2] \<and>
   config exampleCMerged = Some [] \<and> config exampleC1 = Some []"
proof -
  have h1: "mergeContinuationLogs [exampleC1, exampleC2] = Inr [exampleCMerged]"
    by (rule merge_exampleC)
  have h2: "exampleCMerged \<in> set [exampleCMerged]" by simp
  have h3: "runGroup (run_name exampleCMerged) [exampleC1, exampleC2] = exampleC1 # exampleC2 # []"
    by code_simp
  have c: "config exampleC1 = Some []" by (simp add: exampleC1_def logRun_def)
  from merged_config_is_first_files [OF h1 h2 h3] h1 h3 c show ?thesis by simp
qed

text \<open>
  C7: a run whose name no other run of the input shares is passed through unchanged:
  the post-merge list holds exactly one run of that name, and it is the input run
  itself (all its fields as they were).
\<close>

theorem single_file_run_unchanged:
  assumes "mergeContinuationLogs runs = Inr out"
    and "runGroup (run_name r) runs = [r]"
  shows "filter (\<lambda>m. run_name m = run_name r) out = [r]"
proof -
  from assms(2) have "mergeGroup (run_name r) (runGroup (run_name r) runs) = Inr r" by simp
  with assms(2) have "r \<in> set out"
    using merge_output(2) [OF assms(1), of r] by simp
  with merge_output(1) [OF assms(1)] show ?thesis
    by (rule distinct_map_filter_single)
qed

theorem single_file_run_unchanged_witness:
  "mergeContinuationLogs [exampleB1, exampleA, exampleB2] = Inr [exampleBMerged, exampleA] \<and>
   runGroup (run_name exampleA) [exampleB1, exampleA, exampleB2] = [exampleA] \<and>
   filter (\<lambda>m. run_name m = run_name exampleA) [exampleBMerged, exampleA] = [exampleA]"
proof -
  have h1: "mergeContinuationLogs [exampleB1, exampleA, exampleB2] = Inr [exampleBMerged, exampleA]"
    by (rule merge_exampleAB)
  have h2: "runGroup (run_name exampleA) [exampleB1, exampleA, exampleB2] = [exampleA]"
    by code_simp
  from single_file_run_unchanged [OF h1 h2] h1 h2 show ?thesis by simp
qed

text \<open>
  C10: for a group of more than one file, the step values of the merged
  training_metrics are exactly the step values of the group's files, and every
  retained sample is a sample of one of these files.
\<close>

theorem merged_steps_are_union:
  assumes "mergeContinuationLogs runs = Inr out" and "m \<in> set out"
    and "1 < length (runGroup (run_name m) runs)"
  shows "set (trainingSteps m) = (\<Union>r\<in>set (runGroup (run_name m) runs). set (trainingSteps r)) \<and>
         set (samplesOf training_metrics m)
           \<subseteq> (\<Union>r\<in>set (runGroup (run_name m) runs). set (samplesOf training_metrics r))"
proof -
  let ?g = "runGroup (run_name m) runs"
  let ?xs = "pushAll training_metrics ?g"
  have m: "m = mergedRun (run_name m) (hd ?g) ?g"
    by (rule merged_of_group [OF assms])
  have "samplesOf training_metrics (mergedRun (run_name m) (hd ?g) ?g) =
      removeDuplicateSteps training_metric.step (sort_key training_metric.step ?xs)"
    by (simp add: mergedRun_def samplesOf_def)
  with m have tm: "samplesOf training_metrics m =
      removeDuplicateSteps training_metric.step (sort_key training_metric.step ?xs)"
    by simp
  have "set (trainingSteps m) = training_metric.step ` set ?xs"
    by (simp add: trainingSteps_def tm steps_merged_samples)
  also have "\<dots> = (\<Union>r\<in>set ?g. set (trainingSteps r))"
    by (auto simp: set_pushAll trainingSteps_def)
  finally have a: "set (trainingSteps m) = (\<Union>r\<in>set ?g. set (trainingSteps r))" .
  have "set (samplesOf training_metrics m) \<subseteq> set ?xs"
    unfolding tm by (rule set_merged_samples)
  then have b: "set (samplesOf training_metrics m) \<subseteq> (\<Union>r\<in>set ?g. set (samplesOf training_metrics r))"
    by (simp add: set_pushAll)
  from a b show ?thesis by simp
qed

theorem merged_steps_are_union_witness:
  "mergeContinuationLogs [exampleB1, exampleB2] = Inr [exampleBMerged] \<and>
   set (trainingSteps exampleBMerged) = set (trainingSteps exampleB1) \<union> set (trainingSteps exampleB2) \<and>
   set (samplesOf training_metrics exampleBMerged)
     \<subseteq> set (samplesOf training_metrics exampleB1) \<union> set (samplesOf training_metrics exampleB2)"
proof -
  have h1: "mergeContinuationLogs [exampleB1, exampleB2] = Inr [exampleBMerged]"
    by (rule merge_exampleB)
  have h2: "exampleBMerged \<in> set [exampleBMerged]" by simp
  have g: "runGroup (run_name exampleBMerged) [exampleB1, exampleB2] = [exampleB1, exampleB2]"
    by code_simp
  have h3: "1 < length (runGroup (run_name exampleBMerged) [exampleB1, exampleB2])"
    by (simp add: g)
  from merged_steps_are_union [OF h1 h2 h3] h1 show ?thesis by (simp add: g)
qed

section \<open>Claims about the chart series and the run summary\<close>

lemma foldl_jsMax2_Fin:
  "foldl jsMax2 (Fin a) (map Fin xs) = Fin (Max (insert a (set xs)))"
proof (induction xs arbitrary: a)
  case Nil
  then show ?case by simp
next
  case (Cons x xs)
  have "Max (insert (max a x) (set xs)) = Max (insert a (insert x (set xs)))"
    by (cases xs) (simp_all add: max.assoc)
  with Cons.IH [of "max a x"] show ?case by simp
qed

lemma mathMax_Fin: "xs \<noteq> [] \<Longrightarrow> mathMax (map Fin xs) = Fin (Max (set xs))"
  by (cases xs) (simp_all add: mathMax_def foldl_jsMax2_Fin)

lemma jsDiv_zero_not_finite: "isZero z \<Longrightarrow> \<not> isFinite (jsDiv rnd a z)"
  by (cases a; cases z) (simp_all add: jsDiv_def signedInf_def)

lemma jsMul_not_finite: "\<not> isFinite s \<Longrightarrow> \<not> isFinite (jsMul rnd a s)"
  by (cases a; cases s) (simp_all add: jsMul_def signedInf_def)

lemma jsDiv_positive:
  "0 < b \<Longrightarrow> jsDiv rnd (Fin a) (Fin b) = (if a = 0 then Fin 0 else rnd (a / b))"
  by (simp add: jsDiv_def signedZero_def)

lemma selectedRuns_All: "selectedRuns AllRuns runs = Inr runs"
  by (simp add: selectedRuns_def)

lemma selectedRuns_Index: "i < length runs \<Longrightarrow> selectedRuns (RunIndex i) runs = Inr [runs ! i]"
  by (simp add: selectedRuns_def)

lemma in_concat_enumerate:
  assumes "i < length rs"
  shows "\<exists>j. set (f j (rs ! i)) \<subseteq> set (concat (map (\<lambda>(runIndex, r). f runIndex r) (enumerate n rs)))"
proof -
  from assms have "(n + i, rs ! i) \<in> set (enumerate n rs)"
    by (auto simp: in_set_enumerate_eq)
  then have "set (f (n + i) (rs ! i)) \<subseteq> set (concat (map (\<lambda>(runIndex, r). f runIndex r) (enumerate n rs)))"
    by auto
  then show ?thesis ..
qed

lemma combinedRun_nonempty:
  assumes "training_metrics r = Some ms" and "ms \<noteq> []"
  shows "combinedRun rnd j r =
     [plainDataset (run_name r @ '' - Loss'')
        (map (\<lambda>m. (training_metric.step m, loss m)) ms) (colors ! (j mod length colors)),
      \<lparr> label = run_name r @ '' - LR (scaled)'',
        data = map (\<lambda>m. (training_metric.step m,
                          jsMul rnd (learning_rate m)
                            (jsDiv rnd (mathMax (map loss ms))
                                       (mathMax (map learning_rate ms))))) ms,
        borderColor = colors ! (j mod length colors) @ ''80'',
        backgroundColor = colors ! (j mod length colors) @ ''10'',
        borderWidth = 1, fill = False, tension = 1 / 10 \<rparr>]"
  using assms by (simp add: combinedRun_def Let_def)

lemma combined_datasets_of_run:
  assumes "selectedRuns sel runs = Inr rs" and "i < length rs"
  shows "\<exists>ds j. getCombinedChartData rnd sel runs = Inr ds \<and>
           set (combinedRun rnd j (rs ! i)) \<subseteq> set ds"
proof -
  from in_concat_enumerate [OF assms(2), of "combinedRun rnd" 0] obtain j where
    "set (combinedRun rnd j (rs ! i))
       \<subseteq> set (concat (map (\<lambda>(runIndex, r). combinedRun rnd runIndex r) (enumerate 0 rs)))" ..
  with assms(1) show ?thesis by (auto simp: getCombinedChartData_def)
qed



lemma summary_cards:
  assumes "selectedRuns sel runs = Inr rs"
  shows "updateRunSummary sel runs = Inr (map summaryCard rs)"
  using assms by (simp add: updateRunSummary_def)

text \<open>
  C3 fails: the code has no test of the maximal learning rate. For a run whose
  learning rates are all 0 it still pushes the scaled series; the scale factor is
  \<open>maxLoss / 0\<close>, Infinity, and every point of the series is \<open>0 * Infinity\<close>, NaN.
  No result is rounded on the way.
\<close>

theorem zero_learning_rate_scaled_series_emitted:
  "mathMax (map learning_rate (samplesOf training_metrics exampleZ)) = Fin 0 \<and>
   getCombinedChartData exactRounding AllRuns [exampleZ] =
     Inr [plainDataset ''Z - Loss'' [(0, Fin 11), (500, Fin 10)] ''#667eea'',
          \<lparr> label = ''Z - LR (scaled)'', data = [(0, NaN), (500, NaN)],
            borderColor = ''#667eea80'', backgroundColor = ''#667eea10'',
            borderWidth = 1, fill = False, tension = 1 / 10 \<rparr>]"
  by (simp add: exampleZ_def logRun_def sample_def samplesOf_def mathMax_def
      getCombinedChartData_def selectedRuns_def combinedRun_def colors_def plainDataset_def
      jsDiv_def jsMul_def signedInf_def)

text \<open>
  C3, amended: for a run with a non-empty training_metrics list whose maximal learning
  rate is 0 (of either sign), the combined view emits that run's loss series and also
  its scaled learning-rate series, one point per training sample; the scale factor
  \<open>maxLoss / 0\<close> is not finite, and no value of the scaled series is finite. This holds
  whatever the rounding of the arithmetic is.
\<close>

theorem scaled_series_when_max_learning_rate_zero:
  assumes "selectedRuns sel runs = Inr rs" and "i < length rs"
    and "training_metrics (rs ! i) = Some ms" and "ms \<noteq> []"
    and "isZero (mathMax (map learning_rate ms))"
  shows "\<exists>ds. getCombinedChartData rnd sel runs = Inr ds \<and>
           (\<exists>d\<in>set ds. label d = run_name (rs ! i) @ '' - Loss'' \<and>
              data d = map (\<lambda>m. (training_metric.step m, loss m)) ms) \<and>
           (\<exists>d\<in>set ds. label d = run_name (rs ! i) @ '' - LR (scaled)'' \<and>
              map fst (data d) = map training_metric.step ms \<and>
              list_all (\<lambda>p. \<not> isFinite (snd p)) (data d))"
proof -
  from combined_datasets_of_run [OF assms(1,2), of rnd] obtain ds j where
    ds: "getCombinedChartData rnd sel runs = Inr ds"
    and sub: "set (combinedRun rnd j (rs ! i)) \<subseteq> set ds"
    by blast
  note c = combinedRun_nonempty [OF assms(3,4), of rnd j]
  let ?l = "plainDataset (run_name (rs ! i) @ '' - Loss'')
        (map (\<lambda>m. (training_metric.step m, loss m)) ms) (colors ! (j mod length colors))"
  let ?s = "jsDiv rnd (mathMax (map loss ms)) (mathMax (map learning_rate ms))"
  let ?d = "\<lparr> label = run_name (rs ! i) @ '' - LR (scaled)'',
        data = map (\<lambda>m. (training_metric.step m, jsMul rnd (learning_rate m) ?s)) ms,
        borderColor = colors ! (j mod length colors) @ ''80'',
        backgroundColor = colors ! (j mod length colors) @ ''10'',
        borderWidth = 1, fill = False, tension = 1 / 10 \<rparr>"
  from c have "combinedRun rnd j (rs ! i) = [?l, ?d]" by simp
  with sub have "?l \<in> set ds" and dm: "?d \<in> set ds" by simp_all
  moreover have "label ?l = run_name (rs ! i) @ '' - Loss'' \<and>
      data ?l = map (\<lambda>m. (training_metric.step m, loss m)) ms"
    by (simp add: plainDataset_def)
  moreover have "\<not> isFinite ?s"
    using assms(5) by (rule jsDiv_zero_not_finite)
  then have "label ?d = run_name (rs ! i) @ '' - LR (scaled)'' \<and>
      map fst (data ?d) = map training_metric.step ms \<and>
      list_all (\<lambda>p. \<not> isFinite (snd p)) (data ?d)"
    by (simp add: list_all_iff comp_def jsMul_not_finite)
  ultimately show ?thesis using ds by blast
qed

theorem scaled_series_when_max_learning_rate_zero_witness:
  "selectedRuns AllRuns [exampleA, exampleZ] = Inr [exampleA, exampleZ] \<and>
   training_metrics ([exampleA, exampleZ] ! 1) = Some [sample 0 11 0, sample 500 10 0] \<and>
   mathMax (map learning_rate [sample 0 11 0, sample 500 10 0]) = Fin 0 \<and>
   (\<exists>ds. getCombinedChartData exactRounding AllRuns [exampleA, exampleZ] = Inr ds \<and>
      (\<exists>d\<in>set ds. label d = ''Z - LR (scaled)'' \<and> map fst (data d) = [0, 500] \<and>
         list_all (\<lambda>p. \<not> isFinite (snd p)) (data d)))"
proof -
  have h1: "selectedRuns AllRuns [exampleA, exampleZ] = Inr [exampleA, exampleZ]"
    by (rule selectedRuns_All)
  have h2: "1 < length [exampleA, exampleZ]" by simp
  have h3: "training_metrics ([exampleA, exampleZ] ! 1) = Some [sample 0 11 0, sample 500 10 0]"
    by (simp add: exampleZ_def logRun_def)
  have h4: "[sample 0 11 0, sample 500 10 0] \<noteq> []" by simp
  have m: "mathMax (map learning_rate [sample 0 11 0, sample 500 10 0]) = Fin 0"
    by (simp add: mathMax_def sample_def)
  have h5: "isZero (mathMax (map learning_rate [sample 0 11 0, sample 500 10 0]))"
    unfolding m by simp
  have n: "run_name ([exampleA, exampleZ] ! 1) = ''Z''" by (simp add: exampleZ_def logRun_def)
  have s: "map training_metric.step [sample 0 11 0, sample 500 10 0] = [0, 500]"
    by (simp add: sample_def)
  from scaled_series_when_max_learning_rate_zero [OF h1 h2 h3 h4 h5, of exactRounding]
  obtain ds where a: "getCombinedChartData exactRounding AllRuns [exampleA, exampleZ] = Inr ds"
    and b: "\<exists>d\<in>set ds. label d = run_name ([exampleA, exampleZ] ! 1) @ '' - LR (scaled)'' \<and>
              map fst (data d) = map training_metric.step [sample 0 11 0, sample 500 10 0] \<and>
              list_all (\<lambda>p. \<not> isFinite (snd p)) (data d)"
    by (elim exE conjE)
  from b have "\<exists>d\<in>set ds. label d = ''Z - LR (scaled)'' \<and> map fst (data d) = [0, 500] \<and>
         list_all (\<lambda>p. \<not> isFinite (snd p)) (data d)"
    unfolding n s by simp
  with a h1 h3 m show ?thesis by simp
qed

text \<open>
  C4: for a run with a non-empty training_metrics list, the combined view emits a
  series labelled as the scaled learning rate whose value at each step is
  \<open>learning_rate * (max(loss) / max(learning_rate))\<close>, with \<open>*\<close> and \<open>/\<close> the operators of
  JavaScript (whatever their rounding) and the maxima taken over that run's training
  samples. When the losses and learning rates are finite and the maximal learning rate
  is positive, the maxima are the greatest loss and the greatest learning rate, and
  the scale factor is their quotient, rounded (+0 when the greatest loss is 0).
\<close>

theorem scaled_learning_rate_series:
  assumes "selectedRuns sel runs = Inr rs" and "i < length rs"
    and "training_metrics (rs ! i) = Some ms" and "ms \<noteq> []"
  shows "\<exists>ds. getCombinedChartData rnd sel runs = Inr ds \<and>
           (\<exists>d\<in>set ds. label d = run_name (rs ! i) @ '' - LR (scaled)'' \<and>
              data d = map (\<lambda>m. (training_metric.step m,
                                  jsMul rnd (learning_rate m)
                                    (jsDiv rnd (mathMax (map loss ms))
                                               (mathMax (map learning_rate ms))))) ms \<and>
              (\<forall>ls lrs. map loss ms = map Fin ls \<and> map learning_rate ms = map Fin lrs \<and>
                        0 < Max (set lrs) \<longrightarrow>
                 data d = map (\<lambda>(m, lr). (training_metric.step m,
                                          jsMul rnd (Fin lr)
                                            (if Max (set ls) = 0 then Fin 0
                                             else rnd (Max (set ls) / Max (set lrs)))))
                              (zip ms lrs)))"
proof -
  from combined_datasets_of_run [OF assms(1,2), of rnd] obtain ds j where
    ds: "getCombinedChartData rnd sel runs = Inr ds"
    and sub: "set (combinedRun rnd j (rs ! i)) \<subseteq> set ds"
    by blast
  note c = combinedRun_nonempty [OF assms(3,4), of rnd j]
  let ?s = "jsDiv rnd (mathMax (map loss ms)) (mathMax (map learning_rate ms))"
  let ?d = "\<lparr> label = run_name (rs ! i) @ '' - LR (scaled)'',
        data = map (\<lambda>m. (training_metric.step m, jsMul rnd (learning_rate m) ?s)) ms,
        borderColor = colors ! (j mod length colors) @ ''80'',
        backgroundColor = colors ! (j mod length colors) @ ''10'',
        borderWidth = 1, fill = False, tension = 1 / 10 \<rparr>"
  from c sub have dm: "?d \<in> set ds" by simp
  have fin: "data ?d = map (\<lambda>(m, lr). (training_metric.step m,
                                          jsMul rnd (Fin lr)
                                            (if Max (set ls) = 0 then Fin 0
                                             else rnd (Max (set ls) / Max (set lrs)))))
                              (zip ms lrs)"
    if l: "map loss ms = map Fin ls" and r: "map learning_rate ms = map Fin lrs"
      and pos: "0 < Max (set lrs)" for ls lrs
  proof -
    let ?q = "if Max (set ls) = 0 then Fin 0 else rnd (Max (set ls) / Max (set lrs))"
    from l assms(4) have lne: "ls \<noteq> []" by auto
    from r assms(4) have rne: "lrs \<noteq> []" by auto
    from r have len: "length lrs = length ms" by (metis length_map)
    have ml: "mathMax (map loss ms) = Fin (Max (set ls))"
      using l lne by (simp add: mathMax_Fin)
    have mr: "mathMax (map learning_rate ms) = Fin (Max (set lrs))"
      using r rne by (simp add: mathMax_Fin)
    have s: "?s = ?q"
      unfolding ml mr by (rule jsDiv_positive [OF pos])
    have "map (\<lambda>m. (training_metric.step m, jsMul rnd (learning_rate m) ?s)) ms =
        map (\<lambda>(m, lr). (training_metric.step m, jsMul rnd (Fin lr) ?q)) (zip ms lrs)"
    proof (rule nth_equalityI)
      show "length (map (\<lambda>m. (training_metric.step m, jsMul rnd (learning_rate m) ?s)) ms) =
          length (map (\<lambda>(m, lr). (training_metric.step m, jsMul rnd (Fin lr) ?q)) (zip ms lrs))"
        by (simp add: len)
    next
      fix k
      assume "k < length (map (\<lambda>m. (training_metric.step m, jsMul rnd (learning_rate m) ?s)) ms)"
      then have k: "k < length ms" by simp
      then have "map learning_rate ms ! k = map Fin lrs ! k" using r by simp
      with k len have "learning_rate (ms ! k) = Fin (lrs ! k)" by simp
      with k len s
      show "map (\<lambda>m. (training_metric.step m, jsMul rnd (learning_rate m) ?s)) ms ! k =
          map (\<lambda>(m, lr). (training_metric.step m, jsMul rnd (Fin lr) ?q)) (zip ms lrs) ! k"
        by simp
    qed
    then show ?thesis by simp
  qed
  have "label ?d = run_name (rs ! i) @ '' - LR (scaled)'' \<and>
      data ?d = map (\<lambda>m. (training_metric.step m, jsMul rnd (learning_rate m) ?s)) ms"
    by simp
  with fin dm ds show ?thesis by blast
qed

theorem scaled_learning_rate_series_witness:
  "selectedRuns AllRuns [exampleP] = Inr [exampleP] \<and>
   mathMax (map learning_rate (samplesOf training_metrics exampleP)) = Fin (1 / 2) \<and>
   mathMax (map loss (samplesOf training_metrics exampleP)) = Fin 8 \<and>
   (\<exists>ds. getCombinedChartData exactRounding AllRuns [exampleP] = Inr ds \<and>
      (\<exists>d\<in>set ds. label d = ''P - LR (scaled)'' \<and>
         data d = [(0, Fin 0), (500, Fin 4), (1000, Fin 8)]))"
proof -
  let ?ms = "[sample 0 8 0, sample 500 6 (1 / 4), sample 1000 4 (1 / 2)]"
  have h1: "selectedRuns AllRuns [exampleP] = Inr [exampleP]"
    by (rule selectedRuns_All)
  have h2: "0 < length [exampleP]" by simp
  have h3: "training_metrics ([exampleP] ! 0) = Some ?ms"
    by (simp add: exampleP_def logRun_def)
  have h4: "?ms \<noteq> []" by simp
  have m1: "mathMax (map learning_rate ?ms) = Fin (1 / 2)"
    by (simp add: mathMax_def sample_def)
  have m2: "mathMax (map loss ?ms) = Fin 8"
    by (simp add: mathMax_def sample_def)
  have n: "run_name ([exampleP] ! 0) = ''P''" by (simp add: exampleP_def logRun_def)
  have l: "map loss ?ms = map Fin [8, 6, 4]"
    by (simp add: sample_def)
  have r: "map learning_rate ?ms = map Fin [0, 1 / 4, 1 / 2]"
    by (simp add: sample_def)
  have p: "(0::real) < Max (set [0, 1 / 4, 1 / 2])" by simp
  from scaled_learning_rate_series [OF h1 h2 h3 h4, of exactRounding]
  obtain ds d where a: "getCombinedChartData exactRounding AllRuns [exampleP] = Inr ds"
    and b: "d \<in> set ds" and c: "label d = run_name ([exampleP] ! 0) @ '' - LR (scaled)''"
    and e: "\<forall>ls lrs. map loss ?ms = map Fin ls \<and> map learning_rate ?ms = map Fin lrs \<and>
                        0 < Max (set lrs) \<longrightarrow>
                 data d = map (\<lambda>(m, lr). (training_metric.step m,
                                          jsMul exactRounding (Fin lr)
                                            (if Max (set ls) = 0 then Fin 0
                                             else exactRounding (Max (set ls) / Max (set lrs)))))
                              (zip ?ms lrs)"
    by (elim exE conjE bexE)
  from e l r p have "data d = map (\<lambda>(m, lr). (training_metric.step m,
       jsMul exactRounding (Fin lr)
         (if Max (set [8, 6, 4::real]) = 0 then Fin 0
          else exactRounding (Max (set [8, 6, 4]) / Max (set [0, 1 / 4, 1 / 2])))))
       (zip ?ms [0, 1 / 4, 1 / 2])"
    by blast
  then have dd: "data d = [(0, Fin 0), (500, Fin 4), (1000, Fin 8)]"
    by (simp add: sample_def jsMul_def exactRounding_def signedZero_def)
  from c n have "label d = ''P - LR (scaled)''" by simp
  with a b dd have "\<exists>ds. getCombinedChartData exactRounding AllRuns [exampleP] = Inr ds \<and>
      (\<exists>d\<in>set ds. label d = ''P - LR (scaled)'' \<and>
         data d = [(0, Fin 0), (500, Fin 4), (1000, Fin 8)])"
    by blast
  moreover have "mathMax (map learning_rate (samplesOf training_metrics exampleP)) = Fin (1 / 2)"
    using h3 m1 by (simp add: samplesOf_def)
  moreover have "mathMax (map loss (samplesOf training_metrics exampleP)) = Fin 8"
    using h3 m2 by (simp add: samplesOf_def)
  ultimately show ?thesis using h1 by simp
qed



text \<open>
  C9: for a run whose training_metrics are missing or empty the run summary is
  produced: step range, final loss and final learning rate read N/A and the number
  of training points is 0; when the evaluation_results are missing or empty too, the
  final evaluation score reads N/A and the number of evaluation points is 0.
\<close>

theorem summary_without_training_metrics:
  assumes "selectedRuns sel runs = Inr rs" and "i < length rs"
    and "training_metrics (rs ! i) = None \<or> training_metrics (rs ! i) = Some []"
  shows "\<exists>cards. updateRunSummary sel runs = Inr cards \<and> length cards = length rs \<and>
           stepRange (cards ! i) = Literal ''N/A'' \<and>
           finalLoss (cards ! i) = Literal ''N/A'' \<and>
           finalLR (cards ! i) = Literal ''N/A'' \<and>
           trainingPoints (cards ! i) = 0 \<and>
           (evaluation_results (rs ! i) = None \<or> evaluation_results (rs ! i) = Some [] \<longrightarrow>
              finalPaloma (cards ! i) = Literal ''N/A'' \<and> evalPoints (cards ! i) = 0)"
proof -
  let ?c = "summaryCard (rs ! i)"
  from assms(3) have t: "stepRange ?c = Literal ''N/A'' \<and> finalLoss ?c = Literal ''N/A'' \<and>
      finalLR ?c = Literal ''N/A'' \<and> trainingPoints ?c = 0"
    by (auto simp: summaryCard_def)
  have e: "finalPaloma ?c = Literal ''N/A'' \<and> evalPoints ?c = 0"
    if "evaluation_results (rs ! i) = None \<or> evaluation_results (rs ! i) = Some []"
    using that by (auto simp: summaryCard_def)
  from assms(2) have "map summaryCard rs ! i = ?c" by simp
  with t e summary_cards [OF assms(1)] show ?thesis by simp
qed

theorem summary_without_training_metrics_witness:
  "selectedRuns AllRuns [exampleA, exampleEmpty] = Inr [exampleA, exampleEmpty] \<and>
   training_metrics ([exampleA, exampleEmpty] ! 1) = None \<and>
   evaluation_results ([exampleA, exampleEmpty] ! 1) = Some [] \<and>
   (\<exists>cards. updateRunSummary AllRuns [exampleA, exampleEmpty] = Inr cards \<and>
      length cards = 2 \<and>
      stepRange (cards ! 1) = Literal ''N/A'' \<and>
      finalLoss (cards ! 1) = Literal ''N/A'' \<and>
      finalLR (cards ! 1) = Literal ''N/A'' \<and>
      trainingPoints (cards ! 1) = 0 \<and>
      finalPaloma (cards ! 1) = Literal ''N/A'' \<and> evalPoints (cards ! 1) = 0)"
proof -
  have h1: "selectedRuns AllRuns [exampleA, exampleEmpty] = Inr [exampleA, exampleEmpty]"
    by (rule selectedRuns_All)
  have h2: "1 < length [exampleA, exampleEmpty]" by simp
  have t: "training_metrics ([exampleA, exampleEmpty] ! 1) = None"
    by (simp add: exampleEmpty_def)
  have e: "evaluation_results ([exampleA, exampleEmpty] ! 1) = Some []"
    by (simp add: exampleEmpty_def)
  have h3: "training_metrics ([exampleA, exampleEmpty] ! 1) = None \<or>
      training_metrics ([exampleA, exampleEmpty] ! 1) = Some []"
    using t by simp
  from summary_without_training_metrics [OF h1 h2 h3] h1 t e show ?thesis
    by (simp add: numeral_2_eq_2)
qed

end
